theory Spec2Isabelle
  imports Complex_Main
begin

section \<open>Python values used by the language-model notebook\<close>

text \<open>
  The notebook \<^verbatim>\<open>chapter_recurrent-neural-networks/lang-model.ipynb\<close> works on Python
  lists, tuples, ints and \<^verbatim>\<open>collections.Counter\<close> objects. Lists are HOL lists, tuples
  are HOL products, Python's unbounded ints are \<^typ>\<open>int\<close>. A \<^verbatim>\<open>dict\<close> keeps its keys in
  insertion order, so it is an association list in which every key occurs once.
\<close>

type_synonym token = string

type_synonym ('k, 'v) dict = "('k \<times> 'v) list"

definition len :: "'a list \<Rightarrow> int" where
  \<comment> \<open>\<^verbatim>\<open>len(xs)\<close>, for lists and for dicts\<close>
  "len xs = int (length xs)"

fun dict_get :: "('k, 'v) dict \<Rightarrow> 'k \<Rightarrow> 'v \<Rightarrow> 'v" where
  \<comment> \<open>\<^verbatim>\<open>d.get(k, default)\<close>\<close>
  "dict_get [] k dflt = dflt"
| "dict_get ((k', v') # d) k dflt = (if k' = k then v' else dict_get d k dflt)"

fun dict_setitem :: "('k, 'v) dict \<Rightarrow> 'k \<Rightarrow> 'v \<Rightarrow> ('k, 'v) dict" where
  \<comment> \<open>\<^verbatim>\<open>d[k] = v\<close>: an existing key keeps its position, a new key goes last\<close>
  "dict_setitem [] k v = [(k, v)]"
| "dict_setitem ((k', v') # d) k v =
     (if k' = k then (k', v) # d else (k', v') # dict_setitem d k v)"

definition dict_keys :: "('k, 'v) dict \<Rightarrow> 'k list" where
  "dict_keys d = map fst d"

definition dict_values :: "('k, 'v) dict \<Rightarrow> 'v list" where
  "dict_values d = map snd d"

definition py_sum :: "int list \<Rightarrow> int" where
  \<comment> \<open>\<^verbatim>\<open>sum(xs)\<close>\<close>
  "py_sum xs = sum_list xs"

definition slice :: "'a list \<Rightarrow> int option \<Rightarrow> int option \<Rightarrow> 'a list" where
  \<comment> \<open>\<^verbatim>\<open>xs[i:j]\<close> with step 1; \<open>None\<close> is an omitted bound, a negative bound counts from
      the end, and every bound is clamped to \<open>0..len(xs)\<close>\<close>
  "slice xs i j =
     (let n = len xs;
          lo = (case i of None \<Rightarrow> 0 | Some a \<Rightarrow> if a < 0 then max (n + a) 0 else min a n);
          hi = (case j of None \<Rightarrow> n | Some b \<Rightarrow> if b < 0 then max (n + b) 0 else min b n)
      in take (nat (hi - lo)) (drop (nat lo) xs))"

definition zip3 :: "'a list \<Rightarrow> 'b list \<Rightarrow> 'c list \<Rightarrow> ('a \<times> 'b \<times> 'c) list" where
  \<comment> \<open>\<^verbatim>\<open>zip(xs, ys, zs)\<close>: stops with the shortest argument\<close>
  "zip3 xs ys zs = zip xs (zip ys zs)"

subsection \<open>\<^verbatim>\<open>collections.Counter\<close>\<close>

text \<open>
  \<^verbatim>\<open>Counter(iterable)\<close> starts from the empty dict and runs, for every element in order,
  \<^verbatim>\<open>mapping[elem] = mapping.get(elem, 0) + 1\<close>. Reading a key that is not stored calls
  \<^verbatim>\<open>Counter.__missing__\<close>, which returns 0 and stores nothing.
\<close>

definition count_elements :: "('k, int) dict \<Rightarrow> 'k list \<Rightarrow> ('k, int) dict" where
  "count_elements mapping iterable =
     foldl (\<lambda>m elem. dict_setitem m elem (dict_get m elem 0 + 1)) mapping iterable"

definition Counter :: "'k list \<Rightarrow> ('k, int) dict" where
  "Counter iterable = count_elements [] iterable"

definition counter_getitem :: "('k, int) dict \<Rightarrow> 'k \<Rightarrow> int" where
  \<comment> \<open>\<^verbatim>\<open>counter[k]\<close>\<close>
  "counter_getitem c k = dict_get c k 0"

section \<open>Tokenization\<close>

text \<open>
  Every line \<^verbatim>\<open>st\<close> of the text file becomes
  \<^verbatim>\<open>re.sub('[^A-Za-z]+', ' ', st).lower().split()\<close>.
  A character is a \<^typ>\<open>char\<close>, read as the code point of that number (0 to 255).
\<close>

definition is_ascii_letter :: "char \<Rightarrow> bool" where
  \<comment> \<open>the character class \<^verbatim>\<open>[A-Za-z]\<close>\<close>
  "is_ascii_letter c =
     (let n = (of_char c :: nat) in (65 \<le> n \<and> n \<le> 90) \<or> (97 \<le> n \<and> n \<le> 122))"

definition is_ascii_lower :: "char \<Rightarrow> bool" where
  \<comment> \<open>the character class \<^verbatim>\<open>[a-z]\<close>\<close>
  "is_ascii_lower c = (let n = (of_char c :: nat) in 97 \<le> n \<and> n \<le> 122)"

definition isspace :: "char \<Rightarrow> bool" where
  \<comment> \<open>the code points below 256 that \<^verbatim>\<open>str.split()\<close> treats as whitespace\<close>
  "isspace c = ((of_char c :: nat) \<in> {9, 10, 11, 12, 13, 28, 29, 30, 31, 32, 133, 160})"

definition lower_char :: "char \<Rightarrow> char" where
  \<comment> \<open>\<^verbatim>\<open>str.lower()\<close> on one code point below 256: A to Z, and the Latin-1 capitals
      192 to 222 except the multiplication sign 215, move up by 32\<close>
  "lower_char c =
     (let n = (of_char c :: nat)
      in if (65 \<le> n \<and> n \<le> 90) \<or> (192 \<le> n \<and> n \<le> 222 \<and> n \<noteq> 215)
         then char_of (n + 32) else c)"

definition str_lower :: "string \<Rightarrow> string" where
  "str_lower s = map lower_char s"

function re_sub :: "string \<Rightarrow> string" where
  \<comment> \<open>\<^verbatim>\<open>re.sub('[^A-Za-z]+', ' ', st)\<close>: scanning from the left, a letter is copied, and
      a non-letter starts a match that takes every following non-letter as well (\<^verbatim>\<open>+\<close> is
      greedy) and is replaced by one space\<close>
  "re_sub [] = []"
| "re_sub (c # cs) =
     (if is_ascii_letter c then c # re_sub cs
      else CHR '' '' # re_sub (dropWhile (\<lambda>c. \<not> is_ascii_letter c) cs))"
  by pat_completeness auto
termination
  by (relation "measure length") (auto simp: less_Suc_eq_le length_dropWhile_le)

function str_split :: "string \<Rightarrow> string list" where
  \<comment> \<open>\<^verbatim>\<open>s.split()\<close> without arguments: whitespace is skipped, every maximal run of other
      characters is one item, and no item is empty\<close>
  "str_split [] = []"
| "str_split (c # cs) =
     (if isspace c then str_split cs
      else (c # takeWhile (\<lambda>c. \<not> isspace c) cs)
             # str_split (dropWhile (\<lambda>c. \<not> isspace c) cs))"
  by pat_completeness auto
termination
  by (relation "measure length") (auto simp: less_Suc_eq_le length_dropWhile_le)

definition tokenize :: "string \<Rightarrow> token list" where
  "tokenize st = str_split (str_lower (re_sub st))"

definition raw_dataset :: "string list \<Rightarrow> token list list" where
  \<comment> \<open>\<^verbatim>\<open>[re.sub('[^A-Za-z]+', ' ', st).lower().split() for st in lines]\<close>\<close>
  "raw_dataset lines = map tokenize lines"

section \<open>The n-gram frequency tables\<close>

definition wseq :: "token list list \<Rightarrow> token list" where
  \<comment> \<open>\<^verbatim>\<open>[tk for st in raw_dataset for tk in st]\<close>, the argument being the value of
      \<^verbatim>\<open>raw_dataset\<close>\<close>
  "wseq dataset = concat dataset"

definition counter :: "token list list \<Rightarrow> (token, int) dict" where
  \<comment> \<open>\<^verbatim>\<open>collections.Counter([tk for st in raw_dataset for tk in st])\<close>\<close>
  "counter dataset = Counter (wseq dataset)"

definition word_pairs :: "token list \<Rightarrow> (token \<times> token) list" where
  \<comment> \<open>\<^verbatim>\<open>[pair for pair in zip(wseq[:-1], wseq[1:])]\<close>\<close>
  "word_pairs ws = zip (slice ws None (Some (- 1))) (slice ws (Some 1) None)"

definition counter_pairs :: "token list \<Rightarrow> (token \<times> token, int) dict" where
  \<comment> \<open>\<^verbatim>\<open>collections.Counter(word_pairs)\<close>\<close>
  "counter_pairs ws = Counter (word_pairs ws)"

definition word_triples :: "token list \<Rightarrow> (token \<times> token \<times> token) list" where
  \<comment> \<open>\<^verbatim>\<open>[triple for triple in zip(wseq[:-2], wseq[1:-1], wseq[2:])]\<close>\<close>
  "word_triples ws =
     zip3 (slice ws None (Some (- 2))) (slice ws (Some 1) (Some (- 1))) (slice ws (Some 2) None)"

definition counter_triples :: "token list \<Rightarrow> (token \<times> token \<times> token, int) dict" where
  \<comment> \<open>\<^verbatim>\<open>collections.Counter(word_triples)\<close>\<close>
  "counter_triples ws = Counter (word_triples ws)"

section \<open>Smoothed estimates\<close>

text \<open>
  The repository has no code for the smoothed estimates. The notebook states them as
  formulas in a markdown cell, \<^verbatim>\<open>p(w) = (n(w) + e1/m) / (n + e1)\<close> and
  \<^verbatim>\<open>p(w'|w) = (n(w,w') + e2 p(w')) / (n(w) + e2)\<close>, for coefficients \<^verbatim>\<open>e_i > 0\<close>; the
  specification turns them into the operations \<^verbatim>\<open>unigram_prob\<close> and \<^verbatim>\<open>bigram_prob\<close>, which
  are modelled here from its words. The counts are read from the frequency tables built by
  the code above. The specification's \<^verbatim>\<open>float\<close> results are read as real numbers, so
  rounding is outside the model. The specification leaves open what happens when a divisor
  is 0 ("should raise or be explicitly guarded"): such a quotient has no value, \<open>None\<close>.
\<close>

definition truediv :: "real \<Rightarrow> real \<Rightarrow> real option" where
  \<comment> \<open>Modelled from the spec: the division \<^verbatim>\<open>a / b\<close> of its formulas, which is no code of
      the repository; no value when the divisor is 0\<close>
  "truediv a b = (if b = 0 then None else Some (a / b))"

definition unigram_prob ::
  "token \<Rightarrow> (token, int) dict \<Rightarrow> int \<Rightarrow> real \<Rightarrow> int \<Rightarrow> real option" where
  \<comment> \<open>Modelled from the spec: \<^verbatim>\<open>unigram_prob(word, table1, total, e1, vocab_size) -> float\<close>,
      which "returns \<^verbatim>\<open>(count(word, table1) + e1/vocab_size) / (total + e1)\<close>"; the
      repository has no such function, only the formula\<close>
  "unigram_prob word table1 total' eps1 vocab_size =
     (case truediv eps1 (of_int vocab_size) of
        None \<Rightarrow> None
      | Some q \<Rightarrow> truediv (of_int (counter_getitem table1 word) + q) (of_int total' + eps1))"

definition bigram_prob ::
  "token \<Rightarrow> token \<Rightarrow> (token \<times> token, int) dict \<Rightarrow> (token, int) dict
     \<Rightarrow> real \<Rightarrow> int \<Rightarrow> real \<Rightarrow> int \<Rightarrow> real option" where
  \<comment> \<open>Modelled from the spec: \<^verbatim>\<open>bigram_prob(w2, w1, table2, table1, e2) -> float\<close>, which
      "returns \<^verbatim>\<open>(count((w1,w2), table2) + e2 * unigram_prob(w2)) / (count(w1, table1) + e2)\<close>;
      if \<^verbatim>\<open>count(w1, table1)\<close> is 0, falls back to \<^verbatim>\<open>unigram_prob(w2)\<close>"; the repository
      has no such function, only the formula, which has no back-off case. The last three
      arguments are those of \<^verbatim>\<open>unigram_prob\<close>, which the signature leaves out\<close>
  "bigram_prob w2 w1 table2 table1 eps2 total' eps1 vocab_size =
     (if counter_getitem table1 w1 = 0 then unigram_prob w2 table1 total' eps1 vocab_size
      else case unigram_prob w2 table1 total' eps1 vocab_size of
             None \<Rightarrow> None
           | Some p \<Rightarrow>
               truediv (of_int (counter_getitem table2 (w1, w2)) + eps2 * p)
                 (of_int (counter_getitem table1 w1) + eps2))"


section \<open>Reference descriptions of the tokenizer\<close>

function letter_runs :: "string \<Rightarrow> string list" where
  \<comment> \<open>the maximal runs of ASCII letters of a line, in order, each in lower case\<close>
  "letter_runs [] = []"
| "letter_runs (c # cs) =
     (if is_ascii_letter c
      then map lower_char (c # takeWhile is_ascii_letter cs)
             # letter_runs (dropWhile is_ascii_letter cs)
      else letter_runs cs)"
  by pat_completeness auto
termination
  by (relation "measure length") (auto simp: less_Suc_eq_le length_dropWhile_le)

definition tokenize_spec :: "string \<Rightarrow> token list" where
  \<comment> \<open>the tokenizer as the specification words it: lower-case the line, remove the
      characters that are neither letters nor whitespace, split on whitespace\<close>
  "tokenize_spec text =
     str_split (filter (\<lambda>c. is_ascii_letter c \<or> isspace c) (str_lower text))"

section \<open>Dictionaries and counters\<close>

lemma dict_keys_simps:
  "dict_keys [] = []" "dict_keys ((k, v) # d) = k # dict_keys d"
  by (simp_all add: dict_keys_def)

lemma dict_values_simps:
  "dict_values [] = []" "dict_values ((k, v) # d) = v # dict_values d"
  by (simp_all add: dict_values_def)

lemma dict_get_setitem:
  "dict_get (dict_setitem d k v) k' dflt = (if k' = k then v else dict_get d k' dflt)"
  by (induction d) auto

lemma keys_setitem:
  "set (dict_keys (dict_setitem d k v)) = insert k (set (dict_keys d))"
  by (induction d) (auto simp: dict_keys_simps split: if_splits)

lemma distinct_keys_setitem:
  "distinct (dict_keys d) \<Longrightarrow> distinct (dict_keys (dict_setitem d k v))"
proof (induction d)
  case Nil
  then show ?case by (simp add: dict_keys_simps)
next
  case (Cons p d)
  obtain k' v' where p: "p = (k', v')" by (cases p)
  have "set (dict_keys (dict_setitem d k v)) = insert k (set (dict_keys d))"
    by (rule keys_setitem)
  with Cons show ?case
    by (auto simp: p dict_keys_simps)
qed

lemma sum_values_setitem:
  "py_sum (dict_values (dict_setitem d k v)) = py_sum (dict_values d) - dict_get d k 0 + v"
  by (induction d) (auto simp: dict_values_simps py_sum_def)

lemma count_elements_Nil: "count_elements m [] = m"
  by (simp add: count_elements_def)

lemma count_elements_Cons:
  "count_elements m (x # xs) = count_elements (dict_setitem m x (dict_get m x 0 + 1)) xs"
  by (simp add: count_elements_def)

lemma sum_values_count_elements:
  "py_sum (dict_values (count_elements m xs)) = py_sum (dict_values m) + len xs"
  by (induction xs arbitrary: m)
     (simp_all add: count_elements_Nil count_elements_Cons sum_values_setitem len_def)

lemma get_count_elements:
  "dict_get (count_elements m xs) k 0 = dict_get m k 0 + int (count_list xs k)"
  by (induction xs arbitrary: m)
     (simp_all add: count_elements_Nil count_elements_Cons dict_get_setitem)

lemma keys_count_elements:
  "set (dict_keys (count_elements m xs)) = set (dict_keys m) \<union> set xs"
  by (induction xs arbitrary: m)
     (simp_all add: count_elements_Nil count_elements_Cons keys_setitem)

lemma distinct_keys_count_elements:
  "distinct (dict_keys m) \<Longrightarrow> distinct (dict_keys (count_elements m xs))"
  by (induction xs arbitrary: m)
     (simp_all add: count_elements_Nil count_elements_Cons distinct_keys_setitem)

lemma dict_get_stored:
  "distinct (dict_keys d) \<Longrightarrow> (k, v) \<in> set d \<Longrightarrow> dict_get d k dflt = v"
proof (induction d)
  case Nil
  then show ?case by simp
next
  case (Cons p d)
  obtain k' v' where p: "p = (k', v')" by (cases p)
  show ?case
  proof (cases "k' = k")
    case True
    have "(k, v) \<notin> set d"
    proof
      assume "(k, v) \<in> set d"
      then have "k \<in> set (dict_keys d)" by (force simp: dict_keys_def)
      with Cons.prems(1) True show False by (simp add: p dict_keys_simps)
    qed
    with Cons.prems(2) True show ?thesis by (simp add: p)
  next
    case False
    with Cons show ?thesis by (simp add: p dict_keys_simps)
  qed
qed

lemma distinct_keys_Counter: "distinct (dict_keys (Counter xs))"
  unfolding Counter_def by (rule distinct_keys_count_elements) (simp add: dict_keys_simps)

lemma keys_Counter: "set (dict_keys (Counter xs)) = set xs"
  unfolding Counter_def by (simp add: keys_count_elements dict_keys_simps)

lemma getitem_Counter: "counter_getitem (Counter xs) k = int (count_list xs k)"
  by (simp add: Counter_def counter_getitem_def get_count_elements)

lemma sum_values_Counter: "py_sum (dict_values (Counter xs)) = len xs"
proof -
  have "py_sum (dict_values ([] :: ('a, int) dict)) = 0"
    by (simp add: dict_values_simps py_sum_def)
  then show ?thesis
    unfolding Counter_def by (simp add: sum_values_count_elements)
qed

lemma length_Counter: "length (Counter xs) = card (set xs)"
proof -
  have "length (Counter xs) = length (dict_keys (Counter xs))"
    by (simp add: dict_keys_def)
  also have "\<dots> = card (set (dict_keys (Counter xs)))"
    by (simp add: distinct_card distinct_keys_Counter)
  finally show ?thesis by (simp add: keys_Counter)
qed

lemma stored_Counter:
  assumes "(k, c) \<in> set (Counter xs)"
  shows "k \<in> set xs" and "c = int (count_list xs k)" and "1 \<le> c"
proof -
  from assms have "k \<in> set (dict_keys (Counter xs))"
    by (force simp: dict_keys_def)
  then show k: "k \<in> set xs" by (simp add: keys_Counter)
  have "dict_get (Counter xs) k 0 = c"
    using distinct_keys_Counter assms by (rule dict_get_stored)
  then show c: "c = int (count_list xs k)"
    using getitem_Counter [of xs k] by (simp add: counter_getitem_def)
  from k have "count_list xs k \<noteq> 0" by (simp add: count_list_0_iff)
  with c show "1 \<le> c" by simp
qed


lemma slice_to_neg:
  "0 < k \<Longrightarrow> slice xs None (Some (- int k)) = take (length xs - k) xs"
  by (simp add: slice_def len_def Let_def max_def nat_diff_distrib')

lemma slice_from:
  "slice xs (Some (int a)) None = drop a xs"
  by (cases "a \<le> length xs") (simp_all add: slice_def len_def Let_def min_def nat_diff_distrib')

lemma slice_from_to_neg:
  "0 < k \<Longrightarrow> slice xs (Some (int a)) (Some (- int k)) = take (length xs - k - a) (drop a xs)"
  by (cases "a \<le> length xs")
     (simp_all add: slice_def len_def Let_def min_def max_def nat_diff_distrib')

lemma word_pairs_eq: "word_pairs ws = zip (take (length ws - 1) ws) (drop 1 ws)"
  using slice_to_neg [of 1 ws] slice_from [of ws 1] by (simp add: word_pairs_def)

lemma word_triples_eq:
  "word_triples ws =
     zip (take (length ws - 2) ws) (zip (take (length ws - 2) (drop 1 ws)) (drop 2 ws))"
  using slice_to_neg [of 2 ws] slice_from_to_neg [of 1 ws 1] slice_from [of ws 2]
  by (simp add: word_triples_def zip3_def numeral_2_eq_2)

lemma length_word_pairs: "length (word_pairs ws) = length ws - 1"
  by (simp add: word_pairs_eq)

lemma length_word_triples: "length (word_triples ws) = length ws - 2"
  by (simp add: word_triples_eq)

lemma nth_word_pairs:
  "i < length ws - 1 \<Longrightarrow> word_pairs ws ! i = (ws ! i, ws ! (i + 1))"
  by (simp add: word_pairs_eq)

lemma nth_word_triples:
  "i < length ws - 2 \<Longrightarrow> word_triples ws ! i = (ws ! i, ws ! (i + 1), ws ! (i + 2))"
  by (simp add: word_triples_eq)

lemma len_Counter_le: "len (Counter xs) \<le> len xs"
  by (simp add: len_def length_Counter card_length)

lemma len_Counter_eq_iff: "len (Counter xs) = len xs \<longleftrightarrow> distinct xs"
  by (auto simp: len_def length_Counter distinct_card card_distinct)

lemma len_word_pairs: "len (word_pairs ws) = max 0 (len ws - 2 + 1)"
  by (simp add: len_def length_word_pairs)

lemma len_word_triples: "len (word_triples ws) = max 0 (len ws - 3 + 1)"
  by (simp add: len_def length_word_triples)

lemma Counter_table:
  "set (dict_keys (Counter xs)) = set xs
   \<and> (\<forall>(k, c) \<in> set (Counter xs). 1 \<le> c \<and> c = int (count_list xs k))
   \<and> (\<forall>k. k \<notin> set (dict_keys (Counter xs)) \<longrightarrow> counter_getitem (Counter xs) k = 0)"
proof -
  have "\<forall>k. k \<notin> set xs \<longrightarrow> counter_getitem (Counter xs) k = 0"
    by (simp add: getitem_Counter)
  moreover have "\<forall>(k, c) \<in> set (Counter xs). 1 \<le> c \<and> c = int (count_list xs k)"
    using stored_Counter(2,3) by fastforce
  ultimately show ?thesis by (simp add: keys_Counter)
qed

lemma Counter_example:
  "Counter [''a'', ''b'', ''a'', ''b'', ''a''] = [(''a'', 3), (''b'', 2)]"
  by (simp add: Counter_def count_elements_def)

lemma word_pairs_example:
  "word_pairs [''a'', ''b'', ''a'', ''b'', ''a'']
     = [(''a'', ''b''), (''b'', ''a''), (''a'', ''b''), (''b'', ''a'')]"
  by (simp add: word_pairs_def slice_def len_def)

lemma unigram_prob_closed_form:
  "unigram_prob word table1 total' eps1 vocab_size =
     (if vocab_size = 0 \<or> of_int total' + eps1 = 0 then None
      else Some ((of_int (counter_getitem table1 word) + eps1 / of_int vocab_size)
                 / (of_int total' + eps1)))"
  by (simp add: unigram_prob_def truediv_def)

lemma zero_count_unseen:
  "counter_getitem (counter dataset) w = 0 \<longleftrightarrow> w \<notin> set (wseq dataset)"
  by (simp add: counter_def getitem_Counter count_list_0_iff)

section \<open>Properties of the tokenizer\<close>

lemma of_char_lower_char:
  "(of_char (lower_char c) :: nat) =
     (let n = of_char c
      in if (65 \<le> n \<and> n \<le> 90) \<or> (192 \<le> n \<and> n \<le> 222 \<and> n \<noteq> 215) then n + 32 else n)"
  by (simp add: lower_char_def Let_def of_char_of)

lemma lower_char_letter:
  "is_ascii_letter c \<Longrightarrow> is_ascii_lower (lower_char c)"
  by (auto simp: is_ascii_letter_def is_ascii_lower_def of_char_lower_char Let_def)

lemma lower_not_space: "is_ascii_lower c \<Longrightarrow> \<not> isspace c"
  by (auto simp: is_ascii_lower_def isspace_def Let_def)

lemma lower_char_space: "lower_char (CHR '' '') = CHR '' ''"
  by (simp add: lower_char_def)

lemma isspace_space: "isspace (CHR '' '')"
  by (simp add: isspace_def)

lemma re_sub_letters:
  "\<forall>c \<in> set xs. is_ascii_letter c \<Longrightarrow> re_sub (xs @ ys) = xs @ re_sub ys"
  by (induction xs) simp_all

lemma re_sub_nonletters:
  "\<forall>c \<in> set ns. \<not> is_ascii_letter c \<Longrightarrow> ns \<noteq> [] \<Longrightarrow>
   re_sub (ns @ ys) = CHR '' '' # re_sub (dropWhile (\<lambda>c. \<not> is_ascii_letter c) ys)"
  by (cases ns) (simp_all add: dropWhile_append3 dropWhile_append2)

lemma str_split_word:
  assumes "\<forall>c \<in> set w. \<not> isspace c" and "w \<noteq> []" and "rest = [] \<or> isspace (hd rest)"
  shows "str_split (w @ rest) = w # str_split rest"
proof -
  obtain c cs where w: "w = c # cs" using assms(2) by (cases w) auto
  have tw: "takeWhile (\<lambda>c. \<not> isspace c) (cs @ rest) = cs"
    using assms(1,3) w by (cases rest) (auto simp: takeWhile_append2 takeWhile_tail)
  have dw: "dropWhile (\<lambda>c. \<not> isspace c) (cs @ rest) = rest"
    using assms(1,3) w by (cases rest) (auto simp: dropWhile_append2)
  show ?thesis using assms(1) w tw dw by simp
qed

lemma tokenize_nonletter:
  "\<not> is_ascii_letter c \<Longrightarrow>
   tokenize (c # cs) = tokenize (dropWhile (\<lambda>c. \<not> is_ascii_letter c) cs)"
  by (simp add: tokenize_def str_lower_def lower_char_space isspace_space)

lemma tokenize_skip:
  "tokenize (dropWhile (\<lambda>c. \<not> is_ascii_letter c) cs) = tokenize cs"
proof (cases cs)
  case Nil
  then show ?thesis by simp
next
  case (Cons d ds)
  then show ?thesis
    by (cases "is_ascii_letter d") (simp_all add: tokenize_nonletter)
qed

lemma tokenize_letter_runs: "tokenize st = letter_runs st"
proof (induction st rule: letter_runs.induct)
  case 1
  show ?case by (simp add: tokenize_def str_lower_def)
next
  case (2 c cs)
  show ?case
  proof (cases "is_ascii_letter c")
    case False
    then have "tokenize (c # cs) = tokenize cs"
      using tokenize_nonletter [of c cs] tokenize_skip [of cs] by simp
    with False 2 show ?thesis by simp
  next
    case True
    let ?w = "c # takeWhile is_ascii_letter cs"
    let ?r = "dropWhile is_ascii_letter cs"
    have split: "c # cs = ?w @ ?r" by simp
    have w: "\<forall>c \<in> set ?w. is_ascii_letter c"
      using True by (auto dest: set_takeWhileD)
    have "re_sub (c # cs) = ?w @ re_sub ?r"
      using re_sub_letters [OF w, of ?r] by simp
    then have low: "str_lower (re_sub (c # cs)) = map lower_char ?w @ str_lower (re_sub ?r)"
      by (simp add: str_lower_def)
    have nsp: "\<forall>c \<in> set (map lower_char ?w). \<not> isspace c"
      using w by (auto dest!: lower_char_letter lower_not_space)
    have rest: "str_lower (re_sub ?r) = [] \<or> isspace (hd (str_lower (re_sub ?r)))"
    proof (cases ?r)
      case Nil
      show ?thesis unfolding Nil by (simp add: str_lower_def)
    next
      case (Cons d ds)
      then have "\<not> is_ascii_letter d"
        by (metis dropWhile_eq_Cons_conv)
      then show ?thesis
        by (simp add: Cons str_lower_def lower_char_space isspace_space)
    qed
    have "tokenize (c # cs) = map lower_char ?w # tokenize ?r"
      unfolding tokenize_def low
      by (rule str_split_word [OF nsp _ rest]) simp
    with True 2 show ?thesis by simp
  qed
qed

lemma letter_runs_tokens:
  "tok \<in> set (letter_runs st) \<Longrightarrow> tok \<noteq> [] \<and> (\<forall>c \<in> set tok. is_ascii_lower c)"
proof (induction st rule: letter_runs.induct)
  case 1
  then show ?case by simp
next
  case (2 c cs)
  show ?case
  proof (cases "is_ascii_letter c")
    case False
    with 2 show ?thesis by simp
  next
    case True
    from 2(3) True
    consider "tok = map lower_char (c # takeWhile is_ascii_letter cs)"
      | "tok \<in> set (letter_runs (dropWhile is_ascii_letter cs))"
      by auto
    then show ?thesis
    proof cases
      case 1
      have "\<forall>d \<in> set (c # takeWhile is_ascii_letter cs). is_ascii_letter d"
        using True by (auto dest: set_takeWhileD)
      then show ?thesis unfolding 1 by (auto dest: lower_char_letter)
    next
      case 2
      with "2.IH"(1) True show ?thesis by simp
    qed
  qed
qed

lemma letter_runs_nonletters:
  "\<forall>c \<in> set ns. \<not> is_ascii_letter c \<Longrightarrow> letter_runs (ns @ ys) = letter_runs ys"
  by (induction ns) simp_all

lemma letter_runs_separator:
  assumes "ns \<noteq> []" and "\<forall>c \<in> set ns. \<not> is_ascii_letter c"
  shows "letter_runs (xs @ ns @ ys) = letter_runs xs @ letter_runs ys"
proof (induction xs rule: letter_runs.induct)
  case 1
  show ?case using assms(2) by (simp add: letter_runs_nonletters)
next
  case (2 c cs)
  show ?case
  proof (cases "is_ascii_letter c")
    case False
    with 2 show ?thesis by simp
  next
    case True
    let ?tw = "takeWhile is_ascii_letter cs"
    let ?dw = "dropWhile is_ascii_letter cs"
    obtain d ds where rest: "?dw @ ns @ ys = d # ds" and d: "\<not> is_ascii_letter d"
    proof (cases ?dw)
      case Nil
      obtain e es where ns: "ns = e # es" using assms(1) by (cases ns) auto
      with assms(2) have e: "\<not> is_ascii_letter e" by simp
      have "?dw @ ns @ ys = e # es @ ys" unfolding Nil ns by simp
      with e that show ?thesis by blast
    next
      case (Cons e es)
      then have e: "\<not> is_ascii_letter e" by (simp add: dropWhile_eq_Cons_conv)
      have "?dw @ ns @ ys = e # es @ ns @ ys" unfolding Cons by simp
      with e that show ?thesis by blast
    qed
    have "?tw @ d # ds = ?tw @ (?dw @ ns @ ys)" by (simp only: rest)
    also have "\<dots> = (?tw @ ?dw) @ ns @ ys" by (simp only: append_assoc)
    also have "\<dots> = cs @ ns @ ys" by (simp only: takeWhile_dropWhile_id)
    finally have cs: "cs @ ns @ ys = ?tw @ d # ds" by (rule sym)
    have tw: "takeWhile is_ascii_letter (cs @ ns @ ys) = ?tw"
      unfolding cs using d by (auto simp: takeWhile_tail dest: set_takeWhileD)
    have all: "\<forall>x \<in> set ?tw. is_ascii_letter x"
      by (auto dest: set_takeWhileD)
    have dw: "dropWhile is_ascii_letter (cs @ ns @ ys) = ?dw @ ns @ ys"
      unfolding cs rest using d all by (simp add: dropWhile_append3)
    from "2.IH"(1) [OF True] True tw dw show ?thesis by simp
  qed
qed

lemma re_sub_separator:
  assumes "ns \<noteq> []" and "\<forall>c \<in> set ns. \<not> is_ascii_letter c"
    and "ys = [] \<or> is_ascii_letter (hd ys)"
  shows "xs = [] \<or> is_ascii_letter (last xs) \<Longrightarrow>
         re_sub (xs @ ns @ ys) = re_sub xs @ CHR '' '' # re_sub ys"
proof (induction xs rule: re_sub.induct)
  case 1
  have "dropWhile (\<lambda>c. \<not> is_ascii_letter c) ys = ys"
    using assms(3) by (cases ys) auto
  then show ?case using re_sub_nonletters [OF assms(2,1), of ys] by simp
next
  case (2 c cs)
  show ?case
  proof (cases "is_ascii_letter c")
    case True
    have "cs = [] \<or> is_ascii_letter (last cs)" using "2.prems" by (cases cs) auto
    with "2.IH"(1) True show ?thesis by simp
  next
    case False
    let ?dw = "dropWhile (\<lambda>c. \<not> is_ascii_letter c) cs"
    from "2.prems" False have cs: "cs \<noteq> []" and l: "is_ascii_letter (last cs)"
      by (auto split: if_splits)
    from cs have mem: "last cs \<in> set cs" by (rule last_in_set)
    with l have ne: "?dw \<noteq> []" by (auto simp: dropWhile_eq_Nil_conv)
    have app: "dropWhile (\<lambda>c. \<not> is_ascii_letter c) (cs @ ns @ ys) = ?dw @ ns @ ys"
      using dropWhile_append1 [of "last cs" cs "\<lambda>c. \<not> is_ascii_letter c" "ns @ ys"] mem l
      by simp
    have "last (takeWhile (\<lambda>c. \<not> is_ascii_letter c) cs @ ?dw) = last ?dw"
      using ne by (rule last_appendR)
    then have "last ?dw = last cs" by (simp only: takeWhile_dropWhile_id)
    with l have "?dw = [] \<or> is_ascii_letter (last ?dw)" by simp
    from "2.IH"(2) [OF False this] False app show ?thesis by simp
  qed
qed

lemma tokenize_dont: "tokenize ''don't'' = [''don'', ''t'']"
  by (simp add: tokenize_def str_lower_def lower_char_def is_ascii_letter_def isspace_def)

lemma tokenize_spec_dont: "tokenize_spec ''don't'' = [''dont'']"
  by (simp add: tokenize_spec_def str_lower_def lower_char_def is_ascii_letter_def isspace_def)

section \<open>The claims of the specification\<close>

lemma counter_example: "counter [[''a'', ''b'', ''a'', ''b'', ''a'']] = [(''a'', 3), (''b'', 2)]"
  by (simp add: counter_def wseq_def Counter_example)

lemma wseq_example:
  "wseq [[''a'', ''b'', ''a'', ''b'', ''a'']] = [''a'', ''b'', ''a'', ''b'', ''a'']"
  by (simp add: wseq_def)

lemma counter_pairs_example:
  "counter_pairs (wseq [[''a'', ''b'', ''a'', ''b'', ''a'']])
     = [((''a'', ''b''), 2), ((''b'', ''a''), 2)]"
  by (simp add: counter_pairs_def wseq_example word_pairs_example Counter_def count_elements_def)

text \<open>
  C1. For every corpus (a list of token lists), the values of the unigram frequency table
  built over the flattened token sequence add up to the number of tokens of that sequence.
\<close>

theorem unigram_counts_sum_to_length:
  "py_sum (dict_values (counter dataset)) = len (wseq dataset)"
  by (simp add: counter_def sum_values_Counter)

theorem unigram_counts_sum_to_length_witness:
  "py_sum (dict_values (counter [[''a'', ''b'', ''a'', ''b'', ''a'']])) = 5"
  using unigram_counts_sum_to_length [of "[[''a'', ''b'', ''a'', ''b'', ''a'']]"]
  by (simp add: wseq_example len_def)

text \<open>
  C2. For every token sequence and every \<open>n\<close> in 1, 2, 3 the table is built from a window
  of width \<open>n\<close> that moves by one token: the \<open>i\<close>-th n-gram starts at token \<open>i\<close>, there
  are \<open>len(tokens) - n + 1\<close> of them when \<open>len(tokens) \<ge> n\<close>, the table counts exactly
  these (every count is the number of occurrences in the list of n-grams, and the counts add
  up to its length), and the table is empty when \<open>len(tokens) < n\<close>.
\<close>

theorem ngram_windows:
  "(len (wseq dataset) \<ge> 1 \<longrightarrow>
      py_sum (dict_values (counter dataset)) = len (wseq dataset) - 1 + 1)
   \<and> (len (wseq dataset) < 1 \<longrightarrow> counter dataset = [])
   \<and> (\<forall>g. counter_getitem (counter dataset) g = int (count_list (wseq dataset) g))
   \<and> (len (wseq dataset) \<ge> 2 \<longrightarrow>
      len (word_pairs (wseq dataset)) = len (wseq dataset) - 2 + 1
      \<and> py_sum (dict_values (counter_pairs (wseq dataset))) = len (wseq dataset) - 2 + 1)
   \<and> (len (wseq dataset) < 2 \<longrightarrow> counter_pairs (wseq dataset) = [])
   \<and> (\<forall>i < length (word_pairs (wseq dataset)).
         word_pairs (wseq dataset) ! i = (wseq dataset ! i, wseq dataset ! (i + 1)))
   \<and> (\<forall>g. counter_getitem (counter_pairs (wseq dataset)) g
            = int (count_list (word_pairs (wseq dataset)) g))
   \<and> (len (wseq dataset) \<ge> 3 \<longrightarrow>
      len (word_triples (wseq dataset)) = len (wseq dataset) - 3 + 1
      \<and> py_sum (dict_values (counter_triples (wseq dataset))) = len (wseq dataset) - 3 + 1)
   \<and> (len (wseq dataset) < 3 \<longrightarrow> counter_triples (wseq dataset) = [])
   \<and> (\<forall>i < length (word_triples (wseq dataset)).
         word_triples (wseq dataset) ! i
           = (wseq dataset ! i, wseq dataset ! (i + 1), wseq dataset ! (i + 2)))
   \<and> (\<forall>g. counter_getitem (counter_triples (wseq dataset)) g
            = int (count_list (word_triples (wseq dataset)) g))"
proof -
  let ?ws = "wseq dataset"
  have u1: "py_sum (dict_values (counter dataset)) = len ?ws - 1 + 1"
    by (simp add: counter_def sum_values_Counter)
  have u2: "len ?ws < 1 \<longrightarrow> counter dataset = []"
    by (simp add: len_def counter_def Counter_def count_elements_Nil)
  have u3: "\<forall>g. counter_getitem (counter dataset) g = int (count_list ?ws g)"
    by (simp add: counter_def getitem_Counter)
  have p1: "len ?ws \<ge> 2 \<longrightarrow> len (word_pairs ?ws) = len ?ws - 2 + 1"
    by (simp add: len_def length_word_pairs)
  have p2: "py_sum (dict_values (counter_pairs ?ws)) = len (word_pairs ?ws)"
    by (simp add: counter_pairs_def sum_values_Counter)
  have p3: "len ?ws < 2 \<longrightarrow> counter_pairs ?ws = []"
  proof
    assume "len ?ws < 2"
    then have "length (word_pairs ?ws) = 0" by (simp add: len_def length_word_pairs)
    then show "counter_pairs ?ws = []"
      by (simp add: counter_pairs_def Counter_def count_elements_Nil)
  qed
  have p4: "\<forall>i < length (word_pairs ?ws). word_pairs ?ws ! i = (?ws ! i, ?ws ! (i + 1))"
    by (simp add: length_word_pairs nth_word_pairs)
  have p5: "\<forall>g. counter_getitem (counter_pairs ?ws) g = int (count_list (word_pairs ?ws) g)"
    by (simp add: counter_pairs_def getitem_Counter)
  have t1: "len ?ws \<ge> 3 \<longrightarrow> len (word_triples ?ws) = len ?ws - 3 + 1"
    by (simp add: len_def length_word_triples)
  have t2: "py_sum (dict_values (counter_triples ?ws)) = len (word_triples ?ws)"
    by (simp add: counter_triples_def sum_values_Counter)
  have t3: "len ?ws < 3 \<longrightarrow> counter_triples ?ws = []"
  proof
    assume "len ?ws < 3"
    then have "length (word_triples ?ws) = 0" by (simp add: len_def length_word_triples)
    then show "counter_triples ?ws = []"
      by (simp add: counter_triples_def Counter_def count_elements_Nil)
  qed
  have t4: "\<forall>i < length (word_triples ?ws).
         word_triples ?ws ! i = (?ws ! i, ?ws ! (i + 1), ?ws ! (i + 2))"
    by (simp add: length_word_triples nth_word_triples)
  have t5: "\<forall>g. counter_getitem (counter_triples ?ws) g
              = int (count_list (word_triples ?ws) g)"
    by (simp add: counter_triples_def getitem_Counter)
  from p1 p2 have p12: "len ?ws \<ge> 2 \<longrightarrow>
      len (word_pairs ?ws) = len ?ws - 2 + 1
      \<and> py_sum (dict_values (counter_pairs ?ws)) = len ?ws - 2 + 1" by simp
  from t1 t2 have t12: "len ?ws \<ge> 3 \<longrightarrow>
      len (word_triples ?ws) = len ?ws - 3 + 1
      \<and> py_sum (dict_values (counter_triples ?ws)) = len ?ws - 3 + 1" by simp
  from u1 u2 u3 p12 p3 p4 p5 t12 t3 t4 t5 show ?thesis by blast
qed

theorem ngram_windows_witness:
  "len (wseq [[''a'', ''b'', ''a'', ''b'', ''a'']]) \<ge> 3
   \<and> py_sum (dict_values (counter [[''a'', ''b'', ''a'', ''b'', ''a'']])) = 5
   \<and> len (word_pairs (wseq [[''a'', ''b'', ''a'', ''b'', ''a'']])) = 4
   \<and> py_sum (dict_values (counter_pairs (wseq [[''a'', ''b'', ''a'', ''b'', ''a'']]))) = 4
   \<and> len (word_triples (wseq [[''a'', ''b'', ''a'', ''b'', ''a'']])) = 3
   \<and> py_sum (dict_values (counter_triples (wseq [[''a'', ''b'', ''a'', ''b'', ''a'']]))) = 3
   \<and> len (wseq [[''a'']]) < 2
   \<and> counter_pairs (wseq [[''a'']]) = []
   \<and> counter_triples (wseq [[''a'']]) = []"
proof -
  let ?D = "[[''a'', ''b'', ''a'', ''b'', ''a'']]"
  have l5: "len (wseq ?D) = 5"
    by (simp add: wseq_def len_def)
  have l1: "len (wseq [[''a'']]) = 1"
    by (simp add: wseq_def len_def)
  from ngram_windows [of ?D]
  have "py_sum (dict_values (counter ?D)) = 5
   \<and> len (word_pairs (wseq ?D)) = 4
   \<and> py_sum (dict_values (counter_pairs (wseq ?D))) = 4
   \<and> len (word_triples (wseq ?D)) = 3
   \<and> py_sum (dict_values (counter_triples (wseq ?D))) = 3"
    unfolding l5 by simp
  moreover from ngram_windows [of "[[''a'']]"]
  have "counter_pairs (wseq [[''a'']]) = [] \<and> counter_triples (wseq [[''a'']]) = []"
    unfolding l1 by simp
  ultimately show ?thesis by (simp add: l5 l1)
qed

text \<open>
  C3. For every corpus and every word \<open>w2\<close>: if the prefix word \<open>w1\<close> has unigram count 0,
  that is, it never appears in the token sequence, then \<open>bigram_prob\<close> of \<open>w2\<close> after
  \<open>w1\<close> is \<open>unigram_prob\<close> of \<open>w2\<close>, for every smoothing constant, the constant 0 (where
  the quotient would have the divisor 0) included: the zero count is resolved by falling
  back to the lower-order estimate, and the quotient is not computed.
\<close>

theorem bigram_unseen_prefix:
  assumes "counter_getitem (counter dataset) w1 = 0"
  shows "w1 \<notin> set (wseq dataset)
         \<and> bigram_prob w2 w1 (counter_pairs (wseq dataset)) (counter dataset)
               eps2 total' eps1 vocab_size
             = unigram_prob w2 (counter dataset) total' eps1 vocab_size"
  using assms zero_count_unseen [of dataset w1] by (simp add: bigram_prob_def)

theorem bigram_unseen_prefix_witness:
  "counter_getitem (counter [[''a'', ''b'', ''a'', ''b'', ''a'']]) ''c'' = 0
   \<and> ''c'' \<notin> set (wseq [[''a'', ''b'', ''a'', ''b'', ''a'']])
   \<and> bigram_prob ''a'' ''c'' (counter_pairs (wseq [[''a'', ''b'', ''a'', ''b'', ''a'']]))
        (counter [[''a'', ''b'', ''a'', ''b'', ''a'']]) 0 5 1 2 = Some (7 / 12)
   \<and> unigram_prob ''a'' (counter [[''a'', ''b'', ''a'', ''b'', ''a'']]) 5 1 2 = Some (7 / 12)"
proof -
  let ?D = "[[''a'', ''b'', ''a'', ''b'', ''a'']]"
  have z: "counter_getitem (counter ?D) ''c'' = 0"
    by (simp add: counter_example counter_getitem_def)
  have u: "unigram_prob ''a'' (counter ?D) 5 1 2 = Some (7 / 12)"
    by (simp add: counter_example unigram_prob_closed_form counter_getitem_def)
  from bigram_unseen_prefix [OF z, of "''a''" 0 5 1 2] u z show ?thesis by simp
qed




text \<open>
  C5. For every word, table, total count, smoothing constant and vocabulary size,
  \<open>unigram_prob\<close> of the word is \<open>(count(word, table1) + eps1 / vocab_size) / (total + eps1)\<close>;
  it has no value exactly where that expression has none, a divisor being 0.
\<close>

theorem unigram_prob_formula:
  "unigram_prob word table1 total' eps1 vocab_size =
     (if vocab_size = 0 \<or> of_int total' + eps1 = 0 then None
      else Some ((of_int (counter_getitem table1 word) + eps1 / of_int vocab_size)
                 / (of_int total' + eps1)))"
  by (simp add: unigram_prob_def truediv_def)

theorem unigram_prob_formula_witness:
  "unigram_prob ''b'' (counter [[''a'', ''b'', ''a'', ''b'', ''a'']]) 5 1 2 = Some (5 / 12)"
  using unigram_prob_formula [of "''b''" "counter [[''a'', ''b'', ''a'', ''b'', ''a'']]" 5 1 2]
  by (simp add: counter_example counter_getitem_def)

text \<open>
  C6, as amended. For every token sequence and every \<open>N\<close> in 1, 2, 3 the number of keys of
  the N-gram table is at most \<open>max(0, len(tokens) - N + 1)\<close>, and it is equal to that
  number exactly when the N-grams produced are pairwise distinct.
\<close>

theorem distinct_keys_bound:
  "len (counter dataset) \<le> max 0 (len (wseq dataset) - 1 + 1)
   \<and> (len (counter dataset) = max 0 (len (wseq dataset) - 1 + 1)
        \<longleftrightarrow> distinct (wseq dataset))
   \<and> len (counter_pairs (wseq dataset)) \<le> max 0 (len (wseq dataset) - 2 + 1)
   \<and> (len (counter_pairs (wseq dataset)) = max 0 (len (wseq dataset) - 2 + 1)
        \<longleftrightarrow> distinct (word_pairs (wseq dataset)))
   \<and> len (counter_triples (wseq dataset)) \<le> max 0 (len (wseq dataset) - 3 + 1)
   \<and> (len (counter_triples (wseq dataset)) = max 0 (len (wseq dataset) - 3 + 1)
        \<longleftrightarrow> distinct (word_triples (wseq dataset)))"
proof -
  have u: "len (wseq dataset) = max 0 (len (wseq dataset) - 1 + 1)"
    by (simp add: len_def)
  show ?thesis
    using len_Counter_le [of "wseq dataset"] len_Counter_eq_iff [of "wseq dataset"]
      len_Counter_le [of "word_pairs (wseq dataset)"]
      len_Counter_eq_iff [of "word_pairs (wseq dataset)"]
      len_Counter_le [of "word_triples (wseq dataset)"]
      len_Counter_eq_iff [of "word_triples (wseq dataset)"]
    unfolding counter_def counter_pairs_def counter_triples_def
      len_word_pairs len_word_triples u [symmetric]
    by blast
qed

theorem distinct_keys_bound_witness:
  "len (counter_pairs (wseq [[''a'', ''b'', ''a'', ''b'', ''a'']])) \<le> 4
   \<and> \<not> distinct (word_pairs (wseq [[''a'', ''b'', ''a'', ''b'', ''a'']]))
   \<and> len (counter_pairs (wseq [[''a'', ''b'', ''a'', ''b'', ''a'']])) \<noteq> 4
   \<and> distinct (wseq [[''a'', ''b'']])
   \<and> len (counter [[''a'', ''b'']]) = 2"
proof -
  let ?D = "[[''a'', ''b'', ''a'', ''b'', ''a'']]"
  have l5: "len (wseq ?D) = 5" and l2: "len (wseq [[''a'', ''b'']]) = 2"
    by (simp_all add: wseq_def len_def)
  have nd: "\<not> distinct (word_pairs (wseq ?D))"
    by (simp add: wseq_example word_pairs_example)
  have d: "distinct (wseq [[''a'', ''b'']])"
    by (simp add: wseq_def)
  from distinct_keys_bound [of ?D] nd
  have "len (counter_pairs (wseq ?D)) \<le> 4 \<and> len (counter_pairs (wseq ?D)) \<noteq> 4"
    unfolding l5 by simp
  moreover from distinct_keys_bound [of "[[''a'', ''b'']]"] d
  have "len (counter [[''a'', ''b'']]) = 2"
    unfolding l2 by simp
  ultimately show ?thesis using nd d by simp
qed

text \<open>
  The claim as stated bounds the number of keys by \<open>len(tokens) - N + 1\<close>, an integer that
  is negative for a sequence with fewer than \<open>N - 1\<close> tokens: the empty sequence has no
  pairs, and 0 is not at most \<open>0 - 2 + 1 = -1\<close>.
\<close>

theorem distinct_keys_bound_counterexample:
  "\<not> len (counter_pairs (wseq [])) \<le> len (wseq []) - 2 + 1"
  by (simp add: wseq_def len_def)

text \<open>
  C7, as amended. \<open>tokenize\<close> replaces every maximal run of characters that are not ASCII
  letters by one space, lower-cases the line and splits it on whitespace: its tokens are the
  maximal runs of ASCII letters of the line, in order, each in lower case. It is a total
  function (no step of it can fail), and the empty line gives the empty token sequence.
\<close>

theorem tokenize_letter_runs_eq:
  "tokenize st = letter_runs st \<and> tokenize [] = []"
  by (simp add: tokenize_letter_runs)

theorem tokenize_letter_runs_eq_witness:
  "tokenize ''Let's eat, Grandma'' = [''let'', ''s'', ''eat'', ''grandma'']"
proof -
  have "letter_runs ''Let's eat, Grandma'' = [''let'', ''s'', ''eat'', ''grandma'']"
    by code_simp
  with tokenize_letter_runs_eq [of "''Let's eat, Grandma''"] show ?thesis by simp
qed

text \<open>
  The claim as stated removes the characters that are not letters, which joins what they
  separate: lower-casing the line, deleting what is neither a letter nor whitespace and
  splitting on whitespace gives the one token \<open>dont\<close> for the line \<open>don't\<close>, where
  \<open>tokenize\<close> gives \<open>don\<close> and \<open>t\<close>.
\<close>

theorem tokenize_spec_counterexample:
  "tokenize ''don't'' \<noteq> tokenize_spec ''don't''"
  by (simp add: tokenize_dont tokenize_spec_dont)

text \<open>
  C8. For the tokens \<open>a b a b a\<close> the unigram table is \<open>{a: 3, b: 2}\<close>, the bigram table is
  \<open>{(a, b): 2, (b, a): 2}\<close>, and \<open>unigram_prob\<close> of \<open>a\<close> with \<open>eps1 = 0\<close>, the number of
  tokens as \<open>n\<close> and the number of keys as \<open>vocab_size\<close> is \<open>3/5\<close>.
\<close>

theorem scenario_ababa:
  "counter [[''a'', ''b'', ''a'', ''b'', ''a'']] = [(''a'', 3), (''b'', 2)]
   \<and> counter_pairs (wseq [[''a'', ''b'', ''a'', ''b'', ''a'']])
       = [((''a'', ''b''), 2), ((''b'', ''a''), 2)]
   \<and> unigram_prob ''a'' (counter [[''a'', ''b'', ''a'', ''b'', ''a'']])
        (len (wseq [[''a'', ''b'', ''a'', ''b'', ''a'']])) 0
        (len (counter [[''a'', ''b'', ''a'', ''b'', ''a'']])) = Some (3 / 5)"
proof -
  let ?D = "[[''a'', ''b'', ''a'', ''b'', ''a'']]"
  have u: "unigram_prob ''a'' (counter ?D) (len (wseq ?D)) 0 (len (counter ?D))
             = Some (3 / 5)"
    by (simp add: counter_example unigram_prob_closed_form counter_getitem_def len_def wseq_def)
  from counter_example counter_pairs_example u show ?thesis by simp
qed

text \<open>
  C9. For every token sequence and each of the three tables, the keys stored are the n-grams
  that occur, every stored count is at least 1, and reading a key that is not stored gives 0.
\<close>

theorem tables_store_observed:
  "set (dict_keys (counter dataset)) = set (wseq dataset)
   \<and> (\<forall>(k, c) \<in> set (counter dataset). 1 \<le> c)
   \<and> (\<forall>k. k \<notin> set (dict_keys (counter dataset)) \<longrightarrow> counter_getitem (counter dataset) k = 0)
   \<and> set (dict_keys (counter_pairs (wseq dataset))) = set (word_pairs (wseq dataset))
   \<and> (\<forall>(k, c) \<in> set (counter_pairs (wseq dataset)). 1 \<le> c)
   \<and> (\<forall>k. k \<notin> set (dict_keys (counter_pairs (wseq dataset)))
         \<longrightarrow> counter_getitem (counter_pairs (wseq dataset)) k = 0)
   \<and> set (dict_keys (counter_triples (wseq dataset))) = set (word_triples (wseq dataset))
   \<and> (\<forall>(k, c) \<in> set (counter_triples (wseq dataset)). 1 \<le> c)
   \<and> (\<forall>k. k \<notin> set (dict_keys (counter_triples (wseq dataset)))
         \<longrightarrow> counter_getitem (counter_triples (wseq dataset)) k = 0)"
  using Counter_table [of "wseq dataset"] Counter_table [of "word_pairs (wseq dataset)"]
    Counter_table [of "word_triples (wseq dataset)"]
  unfolding counter_def counter_pairs_def counter_triples_def
  by fast

theorem tables_store_observed_witness:
  "((''b'', ''a''), 2) \<in> set (counter_pairs (wseq [[''a'', ''b'', ''a'', ''b'', ''a'']]))
   \<and> (1::int) \<le> 2
   \<and> (''b'', ''b'') \<notin> set (dict_keys (counter_pairs (wseq [[''a'', ''b'', ''a'', ''b'', ''a'']])))
   \<and> counter_getitem (counter_pairs (wseq [[''a'', ''b'', ''a'', ''b'', ''a'']])) (''b'', ''b'') = 0
   \<and> ''c'' \<notin> set (dict_keys (counter [[''a'', ''b'', ''a'', ''b'', ''a'']]))
   \<and> counter_getitem (counter [[''a'', ''b'', ''a'', ''b'', ''a'']]) ''c'' = 0"
proof -
  let ?D = "[[''a'', ''b'', ''a'', ''b'', ''a'']]"
  have m: "((''b'', ''a''), 2) \<in> set (counter_pairs (wseq ?D))"
    by (simp add: counter_pairs_example)
  have a: "(''b'', ''b'') \<notin> set (dict_keys (counter_pairs (wseq ?D)))"
    by (simp add: counter_pairs_example dict_keys_def)
  have b: "''c'' \<notin> set (dict_keys (counter ?D))"
    by (simp add: counter_example dict_keys_def)
  from tables_store_observed [of ?D] a b
  have "counter_getitem (counter_pairs (wseq ?D)) (''b'', ''b'') = 0
        \<and> counter_getitem (counter ?D) ''c'' = 0"
    by blast
  with m a b show ?thesis by simp
qed

text \<open>
  C10. For every line, every token is a non-empty string of lower-case ASCII letters. A
  maximal run of characters that are not letters becomes a single space, and a run of such
  characters between two parts of a line separates their tokens, so that \<open>don't\<close> gives the
  two tokens \<open>don\<close> and \<open>t\<close>.
\<close>

theorem tokens_lowercase_runs:
  "(\<forall>tok \<in> set (tokenize st). tok \<noteq> [] \<and> (\<forall>c \<in> set tok. is_ascii_lower c))
   \<and> (ns \<noteq> [] \<and> (\<forall>c \<in> set ns. \<not> is_ascii_letter c)
        \<and> (xs = [] \<or> is_ascii_letter (last xs)) \<and> (ys = [] \<or> is_ascii_letter (hd ys))
      \<longrightarrow> re_sub (xs @ ns @ ys) = re_sub xs @ '' '' @ re_sub ys)
   \<and> (ns \<noteq> [] \<and> (\<forall>c \<in> set ns. \<not> is_ascii_letter c)
      \<longrightarrow> tokenize (xs @ ns @ ys) = tokenize xs @ tokenize ys)
   \<and> tokenize ''don't'' = [''don'', ''t'']"
proof -
  have a: "\<forall>tok \<in> set (tokenize st). tok \<noteq> [] \<and> (\<forall>c \<in> set tok. is_ascii_lower c)"
    using letter_runs_tokens [of _ st] unfolding tokenize_letter_runs by blast
  have b: "ns \<noteq> [] \<and> (\<forall>c \<in> set ns. \<not> is_ascii_letter c)
        \<and> (xs = [] \<or> is_ascii_letter (last xs)) \<and> (ys = [] \<or> is_ascii_letter (hd ys))
      \<longrightarrow> re_sub (xs @ ns @ ys) = re_sub xs @ '' '' @ re_sub ys"
    using re_sub_separator [of ns ys xs] by simp
  have c: "ns \<noteq> [] \<and> (\<forall>c \<in> set ns. \<not> is_ascii_letter c)
      \<longrightarrow> tokenize (xs @ ns @ ys) = tokenize xs @ tokenize ys"
    using letter_runs_separator [of ns xs ys] unfolding tokenize_letter_runs by simp
  from a b c tokenize_dont show ?thesis by blast
qed

theorem tokens_lowercase_runs_witness:
  "'', !'' \<noteq> [] \<and> \<not> is_ascii_letter (CHR '','') \<and> \<not> is_ascii_letter (CHR '' '')
   \<and> \<not> is_ascii_letter (CHR ''!'')
   \<and> is_ascii_letter (last ''Eat'') \<and> is_ascii_letter (hd ''Grandma'')
   \<and> re_sub (''Eat'' @ '', !'' @ ''Grandma'') = re_sub ''Eat'' @ '' '' @ re_sub ''Grandma''
   \<and> tokenize (''Eat'' @ '', !'' @ ''Grandma'') = tokenize ''Eat'' @ tokenize ''Grandma''
   \<and> ''eat'' \<in> set (tokenize ''Eat'') \<and> ''eat'' \<noteq> []
   \<and> is_ascii_lower (CHR ''e'') \<and> is_ascii_lower (CHR ''a'') \<and> is_ascii_lower (CHR ''t'')"
proof -
  have n: "'', !'' \<noteq> []" by simp
  have l: "\<not> is_ascii_letter (CHR '','')" "\<not> is_ascii_letter (CHR '' '')"
    "\<not> is_ascii_letter (CHR ''!'')"
    by (simp_all add: is_ascii_letter_def)
  have x: "is_ascii_letter (last ''Eat'')" and y: "is_ascii_letter (hd ''Grandma'')"
    by (simp_all add: is_ascii_letter_def)
  have t: "tokenize ''Eat'' = [''eat'']" by code_simp
  from tokens_lowercase_runs [of "''Eat''" "'', !''" "''Eat''" "''Grandma''"] n l x y
  have "re_sub (''Eat'' @ '', !'' @ ''Grandma'') = re_sub ''Eat'' @ '' '' @ re_sub ''Grandma''
        \<and> tokenize (''Eat'' @ '', !'' @ ''Grandma'') = tokenize ''Eat'' @ tokenize ''Grandma''
        \<and> (\<forall>tok \<in> set (tokenize ''Eat''). tok \<noteq> [] \<and> (\<forall>c \<in> set tok. is_ascii_lower c))"
    by simp
  with n l x y t show ?thesis by simp
qed

end
